theory Spec2Isabelle
  imports Main "HOL-Library.Word"
begin

unbundle bit_operations_syntax

section \<open>The platform seen by \<open>swi_tool.c\<close>\<close>

text \<open>
  The firmware talks to the outside through a handful of SDK calls: it switches the
  direction of one GPIO, samples it, busy-waits, masks interrupts and pushes words into
  the inter-core FIFO. The state of the model is the trace of those calls (oldest first)
  together with the environment: the level that the line shows at the n-th sample taken
  since the start, and the number of samples taken so far. A theorem that holds for every
  \<open>level\<close> holds for every device on the wire.
\<close>

type_synonym u8 = "8 word"
type_synonym u32 = "32 word"

text \<open>
  The calls, in the order of the constructors: \<open>gpio_set_dir\<close> to input (the pull-up
  takes the line high) and to output (the line is driven low), \<open>gpio_get\<close> with the level
  it returned, \<open>busy_wait_at_least_cycles\<close> for a number of microseconds,
  \<open>save_and_disable_interrupts\<close>, \<open>restore_interrupts\<close>, and \<open>multicore_fifo_push_blocking\<close>
  from core 0 and from core 1 with the word pushed.
\<close>

datatype sdk_call =
    Gpio_dir_in
  | Gpio_dir_out
  | Gpio_get bool
  | Busy_wait_us nat
  | Irq_disable
  | Irq_restore
  | Fifo_push_core0 u32
  | Fifo_push_core1 u32

record swi =
  trace :: "sdk_call list"
  level :: "nat \<Rightarrow> bool"
  reads :: nat

text \<open>Recording a call.\<close>

definition emit :: "sdk_call \<Rightarrow> swi \<Rightarrow> swi" where
  "emit c s = s\<lparr>trace := trace s @ [c]\<rparr>"

text \<open>
  The pin set-up at the start of core 1, the JSON command handler and \<open>main\<close> lie outside
  the operations studied here and are not part of the model.
\<close>

subsection \<open>Constants\<close>

definition TX_BYTE :: u8 where [simp]: "TX_BYTE = 0x01"
definition DISCOVERY :: u8 where [simp]: "DISCOVERY = 0x02"
definition RX_BYTE :: u8 where [simp]: "RX_BYTE = 0x03"

definition SEND_NACK :: u8 where [simp]: "SEND_NACK = 1"

definition T_PRUSA_LOW1_US :: nat where [simp]: "T_PRUSA_LOW1_US = 2"
definition T_PRUSA_LOW0_US :: nat where [simp]: "T_PRUSA_LOW0_US = 10"
definition T_PRUSA_RD_US :: nat where [simp]: "T_PRUSA_RD_US = 1"
definition T_PRUSA_MRS_US :: nat where [simp]: "T_PRUSA_MRS_US = 1"
definition T_PRUSA_BIT_US :: nat where [simp]: "T_PRUSA_BIT_US = 25"

definition time_rd :: nat where "time_rd = T_PRUSA_RD_US"
definition time_mrs :: nat where "time_mrs = T_PRUSA_MRS_US"
definition time_low1 :: nat where "time_low1 = T_PRUSA_LOW1_US"
definition time_low0 :: nat where "time_low0 = T_PRUSA_LOW0_US"
definition tx_one_btime :: nat where "tx_one_btime = T_PRUSA_BIT_US - T_PRUSA_LOW1_US"
definition tx_zero_btime :: nat where "tx_zero_btime = T_PRUSA_BIT_US - T_PRUSA_LOW0_US"
definition rd_btime :: nat where "rd_btime = T_PRUSA_BIT_US - T_PRUSA_RD_US - T_PRUSA_MRS_US"

definition OPCODE_EEPROM_ACCESS :: u8 where [simp]: "OPCODE_EEPROM_ACCESS = 0xA0"
definition RW_BIT :: u8 where [simp]: "RW_BIT = 0x01"

subsection \<open>Bus line driver\<close>

definition sio_set_high :: "swi \<Rightarrow> swi" where
  "sio_set_high s = emit Gpio_dir_in s"

definition sio_set_low :: "swi \<Rightarrow> swi" where
  "sio_set_low s = emit Gpio_dir_out s"

definition sio_get_value :: "swi \<Rightarrow> u8 \<times> swi" where
  "sio_get_value s =
     (let s = emit Gpio_dir_in s;
          b = level s (reads s)
      in (if b then 1 else 0, (emit (Gpio_get b) s)\<lparr>reads := Suc (reads s)\<rparr>))"

text \<open>
  \<open>soft_delay_us\<close> turns its argument into a cycle count in floating point and busy-waits.
  Every call in the file passes a whole number of microseconds; the model records that
  number and leaves the cycle count out.
\<close>

definition soft_delay_us :: "nat \<Rightarrow> swi \<Rightarrow> swi" where
  "soft_delay_us us s = emit (Busy_wait_us us) s"

subsection \<open>Bit and byte protocol engine\<close>

definition discovery_response :: "swi \<Rightarrow> u8 \<times> swi" where
  "discovery_response s =
     (let s = sio_set_high s;
          s = soft_delay_us 200 s;
          s = sio_set_low s;
          s = soft_delay_us 150 s;
          s = sio_set_high s;
          s = soft_delay_us 100 s;
          s = sio_set_low s;
          s = soft_delay_us 1 s;
          s = sio_set_high s;
          s = soft_delay_us 3 s;
          (v, s) = sio_get_value s;
          temp = (if v = 0 then 0x00 else 0xFF);
          s = soft_delay_us 150 s
      in (temp, s))"

definition tx_one :: "swi \<Rightarrow> swi" where
  "tx_one s =
     (let s = sio_set_low s;
          s = soft_delay_us time_low1 s;
          s = sio_set_high s
      in soft_delay_us tx_one_btime s)"

definition tx_zero :: "swi \<Rightarrow> swi" where
  "tx_zero s =
     (let s = sio_set_low s;
          s = soft_delay_us time_low0 s;
          s = sio_set_high s
      in soft_delay_us tx_zero_btime s)"

definition read_bit :: "swi \<Rightarrow> u8 \<times> swi" where
  "read_bit s =
     (let s = sio_set_low s;
          s = soft_delay_us time_rd s;
          s = sio_set_high s;
          s = soft_delay_us time_mrs s;
          (v, s) = sio_get_value s;
          temp = v AND 0x01;
          s = soft_delay_us rd_btime s;
          s = sio_set_high s
      in (temp, s))"

definition ack_nack :: "swi \<Rightarrow> u8 \<times> swi" where
  "ack_nack s = (let (b, s) = read_bit s in (if b \<noteq> 0 then 0xFF else 0x00, s))"

definition stop_con :: "swi \<Rightarrow> swi" where
  "stop_con s = soft_delay_us 500 s"

text \<open>The \<open>for\<close> loop of \<open>tx_byte\<close>: \<open>ii\<close> counts the bits already sent.\<close>

function tx_byte_loop :: "nat \<Rightarrow> u8 \<Rightarrow> swi \<Rightarrow> swi" where
  "tx_byte_loop ii data_byte s =
     (if ii < 8
      then tx_byte_loop (ii + 1) (push_bit 1 data_byte)
             (if data_byte AND 0x80 \<noteq> 0 then tx_one s else tx_zero s)
      else s)"
  by pat_completeness auto
termination
  by (relation "measure (\<lambda>(ii, _, _). 8 - ii)") auto

declare tx_byte_loop.simps [simp del]

definition tx_byte :: "u8 \<Rightarrow> swi \<Rightarrow> u8 \<times> swi" where
  "tx_byte data_byte s = ack_nack (tx_byte_loop 0 data_byte s)"

text \<open>The \<open>for\<close> loop of \<open>read_byte\<close>, with the byte accumulated so far.\<close>

function read_byte_loop :: "nat \<Rightarrow> u8 \<Rightarrow> swi \<Rightarrow> u8 \<times> swi" where
  "read_byte_loop ii data_byte s =
     (if ii < 8
      then (let (temp, s) = read_bit s
            in read_byte_loop (ii + 1) (push_bit 1 data_byte OR temp) s)
      else (data_byte, s))"
  by pat_completeness auto
termination
  by (relation "measure (\<lambda>(ii, _, _). 8 - ii)") auto

declare read_byte_loop.simps [simp del]

definition read_byte :: "u8 \<Rightarrow> swi \<Rightarrow> u8 \<times> swi" where
  "read_byte ack s =
     (let (data_byte, s) = read_byte_loop 0 0 s;
          s = (if ack \<noteq> 0 then tx_one s else tx_zero s)
      in (data_byte, s))"

definition rx_byte :: "u8 \<Rightarrow> swi \<Rightarrow> u8 \<times> swi" where
  "rx_byte ack s = read_byte ack s"

subsection \<open>Real-time executor and command channel\<close>

text \<open>
  The request envelope: \<open>send_cmd\<close> packs it as \<open>(cmd << 24) | data\<close>, \<open>core1_entry\<close>
  takes it apart again. Both operands are promoted to 32-bit integers in C; the model
  computes on 32-bit words, so a shift that reaches the sign bit (an opcode of \<open>0x80\<close> or
  more, which the firmware never sends) keeps its bit pattern.
\<close>

definition envelope :: "u8 \<Rightarrow> u8 \<Rightarrow> u32" where
  "envelope cmd data = push_bit 24 (ucast cmd) OR ucast data"

definition envelope_cmd :: "u32 \<Rightarrow> u8" where
  "envelope_cmd item = ucast (drop_bit 24 item AND 0xFF)"

definition envelope_data :: "u32 \<Rightarrow> u8" where
  "envelope_data item = ucast (item AND 0xFF)"

text \<open>The \<open>switch\<close> of \<open>core1_entry\<close>.\<close>

definition core1_dispatch :: "u8 \<Rightarrow> u8 \<Rightarrow> swi \<Rightarrow> u8 \<times> swi" where
  "core1_dispatch cmd data s =
     (if cmd = TX_BYTE then tx_byte data s
      else if cmd = DISCOVERY then discovery_response s
      else if cmd = RX_BYTE then rx_byte data s
      else (0xFF, s))"

text \<open>
  One turn of the executor's endless loop, from the item popped off the FIFO to the
  word pushed back.
\<close>

definition core1_entry_step :: "u32 \<Rightarrow> swi \<Rightarrow> u32 \<times> swi" where
  "core1_entry_step item s =
     (let cmd = envelope_cmd item;
          data = envelope_data item;
          s = emit Irq_disable s;
          (ack, s) = core1_dispatch cmd data s;
          s = emit Irq_restore s;
          s = emit (Fifo_push_core1 (ucast ack)) s
      in (ucast ack, s))"

text \<open>
  \<open>send_cmd\<close> pushes the envelope and blocks until the executor has pushed its answer:
  the hand-over is strictly one request, one response, so the model runs the executor's
  turn as a call.
\<close>

definition send_cmd :: "u8 \<Rightarrow> u8 \<Rightarrow> swi \<Rightarrow> u8 \<times> swi" where
  "send_cmd cmd data s =
     (let item = envelope cmd data;
          s = emit (Fifo_push_core0 item) s;
          (r, s) = core1_entry_step item s
      in (ucast r, s))"

subsection \<open>Session operations\<close>


definition load_address :: "u8 \<Rightarrow> u8 \<Rightarrow> swi \<Rightarrow> int \<times> swi" where
  "load_address dev_addr data_addr s =
     (if data_addr > 128 then (- 1, s)
      else (let (r, s) = send_cmd TX_BYTE (OPCODE_EEPROM_ACCESS OR dev_addr OR 0) s
            in if r \<noteq> 0 then (- 2, s)
               else (let (r, s) = send_cmd TX_BYTE data_addr s
                     in if r \<noteq> 0 then (- 3, s) else (1, s))))"

definition read_eeprom :: "u8 \<Rightarrow> u8 \<Rightarrow> swi \<Rightarrow> int \<times> swi" where
  "read_eeprom dev_addr data_addr s =
     (let (res, s) = load_address dev_addr data_addr s
      in if res < 0 then (res - 5, s)
         else (let s = stop_con s;
                   (r, s) = send_cmd TX_BYTE (OPCODE_EEPROM_ACCESS OR dev_addr OR RW_BIT) s
               in if r \<noteq> 0 then (- 5, s)
                  else (let (d, s) = send_cmd RX_BYTE SEND_NACK s;
                            data = uint d;
                            s = stop_con s
                        in (data, s))))"

definition verified_read :: "u8 \<Rightarrow> u8 \<Rightarrow> swi \<Rightarrow> int \<times> swi" where
  "verified_read dev_addr data_addr s =
     (let (data0, s) = read_eeprom dev_addr data_addr s;
          (data1, s) = read_eeprom dev_addr data_addr s
      in if data0 = data1 then (data0, s)
         else (let (data2, s) = read_eeprom dev_addr data_addr s
               in if data1 = data2 then (data1, s)
                  else if data2 = data0 then (data2, s)
                  else (- 1, s)))"

text \<open>
  The \<open>for\<close> loop of \<open>read_block\<close>. The buffer is the caller's array, returned updated.
  \<open>data_addr + i\<close> is an \<open>int\<close> narrowed to the 8-bit parameter of \<open>verified_read\<close>, which is
  addition on bytes; \<open>(uint8_t) res\<close> keeps the low byte of \<open>res\<close>. A store beyond the end
  of the array is undefined in C and leaves the list as it is here: the theorems about
  \<open>read_block\<close> take a buffer of at least \<open>len\<close> bytes, as the one caller allocates.
\<close>

function read_block_loop ::
  "u8 \<Rightarrow> u8 \<Rightarrow> u8 \<Rightarrow> nat \<Rightarrow> u8 list \<Rightarrow> swi \<Rightarrow> int \<times> u8 list \<times> swi" where
  "read_block_loop dev_addr data_addr len i buffer s =
     (if i < unat len
      then (let (res, s) = verified_read dev_addr (data_addr + of_nat i) s
            in if res < 0 then (- 3, buffer, s)
               else read_block_loop dev_addr data_addr len (i + 1)
                      (buffer[i := word_of_int res]) s)
      else (1, buffer, s))"
  by pat_completeness auto
termination
  by (relation "measure (\<lambda>(_, _, len, i, _, _). unat len - i)") auto

declare read_block_loop.simps [simp del]

definition read_block :: "u8 \<Rightarrow> u8 \<Rightarrow> u8 list \<Rightarrow> u8 \<Rightarrow> swi \<Rightarrow> int \<times> u8 list \<times> swi" where
  "read_block dev_addr data_addr buffer len s =
     (if unat data_addr + unat len > 128 then (- 1, buffer, s)
      else (let (r, s) = send_cmd DISCOVERY 0 s
            in if r \<noteq> 0 then (- 2, buffer, s)
               else read_block_loop dev_addr data_addr len 0 buffer s))"

section \<open>Vocabulary of the statements\<close>

text \<open>
  The definitions of this section are not code of the firmware: they name what the
  theorems talk about.
\<close>

text \<open>Sending a list of bits, each with \<open>tx_one\<close> or \<open>tx_zero\<close>.\<close>

definition tx_bits :: "bool list \<Rightarrow> swi \<Rightarrow> swi" where
  "tx_bits bs s = fold (\<lambda>b. if b then tx_one else tx_zero) bs s"

text \<open>The SDK calls that make up one transmitted bit.\<close>

definition wave :: "bool \<Rightarrow> sdk_call list" where
  "wave b = (if b
     then [Gpio_dir_out, Busy_wait_us time_low1, Gpio_dir_in, Busy_wait_us tx_one_btime]
     else [Gpio_dir_out, Busy_wait_us time_low0, Gpio_dir_in, Busy_wait_us tx_zero_btime])"

text \<open>
  What a receiver tied to the line reads off a trace: a low pulse of \<open>time_low1\<close> in a slot
  of the bit period is a one, a low pulse of \<open>time_low0\<close> a zero, and anything else ends
  the frame.
\<close>

fun sent_bits :: "sdk_call list \<Rightarrow> bool list" where
  "sent_bits (Gpio_dir_out # Busy_wait_us lo # Gpio_dir_in # Busy_wait_us hi # cs) =
     (if lo = time_low1 \<and> hi = tx_one_btime then True # sent_bits cs
      else if lo = time_low0 \<and> hi = tx_zero_btime then False # sent_bits cs
      else [])"
| "sent_bits cs = []"

text \<open>The byte whose bits, most significant first, are the given list.\<close>

definition msb_first_byte :: "bool list \<Rightarrow> u8" where
  "msb_first_byte bs = horner_sum of_bool 2 (rev bs)"

text \<open>
  How a turn of the executor ends once the primitive has returned: interrupts are
  restored and the result byte is pushed back.
\<close>

definition reply :: "u8 \<times> swi \<Rightarrow> u32 \<times> swi" where
  "reply r = (ucast (fst r), emit (Fifo_push_core1 (ucast (fst r))) (emit Irq_restore (snd r)))"

text \<open>The envelopes that core 0 pushed to the executor, oldest first.\<close>

fun requests :: "sdk_call list \<Rightarrow> u32 list" where
  "requests [] = []"
| "requests (Fifo_push_core0 item # cs) = item # requests cs"
| "requests (c # cs) = requests cs"

text \<open>
  The state in which \<open>read_block\<close> starts the verified read of byte \<open>i\<close> of a block, when
  the reads before it succeeded and the loop was entered in state \<open>s\<close>; and the result of
  that read.
\<close>

fun block_state :: "u8 \<Rightarrow> u8 \<Rightarrow> swi \<Rightarrow> nat \<Rightarrow> swi" where
  "block_state dev_addr data_addr s 0 = s"
| "block_state dev_addr data_addr s (Suc i) =
     snd (verified_read dev_addr (data_addr + of_nat i) (block_state dev_addr data_addr s i))"

definition block_result :: "u8 \<Rightarrow> u8 \<Rightarrow> swi \<Rightarrow> nat \<Rightarrow> int" where
  "block_result dev_addr data_addr s i =
     fst (verified_read dev_addr (data_addr + of_nat i) (block_state dev_addr data_addr s i))"

text \<open>The bits of a byte, most significant first.\<close>

definition bits_of :: "u8 \<Rightarrow> bool list" where
  "bits_of b = [bit b 7, bit b 6, bit b 5, bit b 4, bit b 3, bit b 2, bit b 1, bit b 0]"

text \<open>
  A simulated line for the examples: the samples are taken from a list, and past its end
  the released line reads high. \<open>acked_read b\<close> is what a device puts on the line during one
  \<open>read_eeprom\<close> that it serves with the byte \<open>b\<close>: a low level in each of the three ack
  slots, then the eight bits.
\<close>

definition acked_read :: "u8 \<Rightarrow> bool list" where
  "acked_read b = [False, False, False] @ bits_of b"

definition line_of :: "bool list \<Rightarrow> nat \<Rightarrow> bool" where
  "line_of bs n = (if n < length bs then bs ! n else True)"

definition boot :: "bool list \<Rightarrow> swi" where
  "boot bs = \<lparr>trace = [], level = line_of bs, reads = 0\<rparr>"

section \<open>The bit and byte engine\<close>

text \<open>
  What the two byte loops do, bit by bit, and what each primitive adds to the trace.
\<close>

lemma ff_mask: "(0xFF :: u32) = mask 8" by (simp add: mask_eq_exp_minus_1)

lemma tx_bits_Nil [simp]: "tx_bits [] s = s" by (simp add: tx_bits_def)
lemma tx_bits_Cons [simp]: "tx_bits (b # bs) s = tx_bits bs (if b then tx_one s else tx_zero s)"
  by (simp add: tx_bits_def)

lemma test_msb: "(d AND 0x80 \<noteq> 0) = bit (d::u8) 7"
proof -
  have "(0x80::u8) = push_bit 7 1" by simp
  then show ?thesis by (simp only: and_exp_eq_0_iff_not_bit push_bit_of_1 not_not)
qed

lemma bit_shl1: "k < 7 \<Longrightarrow> bit (push_bit 1 (d::u8)) (7 - k) = bit d (6 - k)"
proof -
  assume "k < 7"
  then have "7 - k - 1 = 6 - k" "1 \<le> 7 - k" "7 - k < 8" by simp_all
  then show ?thesis by (simp only: bit_push_bit_iff) (simp add: possible_bit_def)
qed

lemma tx_byte_loop_bits:
  "ii \<le> 8 \<Longrightarrow> tx_byte_loop ii d s = tx_bits (map (\<lambda>k. bit d (7 - k)) [0..<8 - ii]) s"
proof (induction ii d s rule: tx_byte_loop.induct)
  case (1 ii d s)
  show ?case
  proof (cases "ii < 8")
    case True
    then have split: "[0..<8 - ii] = 0 # map Suc [0..<8 - (ii + 1)]"
      by (metis Suc_diff_Suc Suc_eq_plus1 map_Suc_upt upt_conv_Cons zero_less_diff)
    have shift: "map (\<lambda>k. bit (push_bit 1 d) (7 - k)) [0..<8 - (ii + 1)]
                 = map ((\<lambda>k. bit d (7 - k)) \<circ> Suc) [0..<8 - (ii + 1)]"
      using True bit_shl1 [of _ d] by simp
    let ?s' = "if bit d 7 then tx_one s else tx_zero s"
    have "tx_byte_loop ii d s = tx_byte_loop (ii + 1) (push_bit 1 d) ?s'"
      by (subst tx_byte_loop.simps) (simp only: True test_msb if_True)
    also have "\<dots> = tx_bits (map (\<lambda>k. bit (push_bit 1 d) (7 - k)) [0..<8 - (ii + 1)]) ?s'"
      using True "1.IH" [OF True] by (simp add: test_msb)
    also have "\<dots> = tx_bits (map ((\<lambda>k. bit d (7 - k)) \<circ> Suc) [0..<8 - (ii + 1)]) ?s'"
      by (simp only: shift)
    also have "\<dots> = tx_bits (map (\<lambda>k. bit d (7 - k)) [0..<8 - ii]) s"
      by (simp only: split list.map tx_bits_Cons map_map diff_zero)
    finally show ?thesis .
  next
    case False
    with "1.prems" show ?thesis by (subst tx_byte_loop.simps) simp
  qed
qed


lemma tx_byte_loop_msb_first:
  "tx_byte_loop 0 d s =
     tx_bits [bit d 7, bit d 6, bit d 5, bit d 4, bit d 3, bit d 2, bit d 1, bit d 0] s"
proof -
  have "[0..<8] = [0, 1, 2, 3, 4, 5, 6, 7::nat]" by (simp add: upt_rec)
  then show ?thesis using tx_byte_loop_bits [of 0 d s] by simp
qed


lemma level_emit [simp]: "level (emit c s) = level s" by (simp add: emit_def)
lemma reads_emit [simp]: "reads (emit c s) = reads s" by (simp add: emit_def)
lemma trace_emit [simp]: "trace (emit c s) = trace s @ [c]" by (simp add: emit_def)

lemma read_bit_eq:
  "read_bit s =
     (if level s (reads s) then 1 else 0,
      s\<lparr>trace := trace s @ [Gpio_dir_out, Busy_wait_us time_rd, Gpio_dir_in, Busy_wait_us time_mrs,
                Gpio_dir_in, Gpio_get (level s (reads s)), Busy_wait_us rd_btime, Gpio_dir_in],
        reads := Suc (reads s)\<rparr>)"
  by (simp add: read_bit_def sio_set_low_def sio_set_high_def soft_delay_us_def
      sio_get_value_def emit_def Let_def)


lemma bit_shl1_Suc: "bit (push_bit 1 (a::u8)) (Suc n) \<longleftrightarrow> Suc n < 8 \<and> bit a n"
  by (simp only: bit_push_bit_iff) (auto simp add: possible_bit_def)

lemma bit_double_Suc: "bit ((a::u8) * 2) (Suc n) \<longleftrightarrow> Suc n < 8 \<and> bit a n"
  using bit_shl1_Suc [of a n] by simp

lemma read_byte_loop_frame:
  "ii \<le> 8 \<Longrightarrow> level (snd (read_byte_loop ii acc s)) = level s
     \<and> reads (snd (read_byte_loop ii acc s)) = reads s + (8 - ii)"
proof (induction ii acc s rule: read_byte_loop.induct)
  case (1 ii acc s)
  show ?case
  proof (cases "ii < 8")
    case True
    obtain b s' where rb: "read_bit s = (b, s')" by (cases "read_bit s")
    then have s': "level s' = level s" "reads s' = Suc (reads s)"
      by (auto simp add: read_bit_eq)
    have "read_byte_loop ii acc s = read_byte_loop (ii + 1) (push_bit 1 acc OR b) s'"
      by (subst read_byte_loop.simps) (simp only: True if_True rb Let_def prod.case)
    moreover have "level (snd (read_byte_loop (ii + 1) (push_bit 1 acc OR b) s')) = level s'
      \<and> reads (snd (read_byte_loop (ii + 1) (push_bit 1 acc OR b) s')) = reads s' + (8 - (ii + 1))"
      using True by (intro "1.IH" [OF True rb [symmetric] refl]) simp
    ultimately show ?thesis using True s' by simp
  next
    case False
    with "1.prems" show ?thesis by (subst (1 2) read_byte_loop.simps) simp
  qed
qed

lemma read_byte_loop_bits:
  "ii \<le> 8 \<Longrightarrow> bit (fst (read_byte_loop ii acc s)) k \<longleftrightarrow>
     (if k < 8 - ii then level s (reads s + (7 - ii - k))
      else k < 8 \<and> bit acc (k - (8 - ii)))"
proof (induction ii acc s arbitrary: k rule: read_byte_loop.induct)
  case (1 ii acc s)
  show ?case
  proof (cases "ii < 8")
    case True
    obtain b s' where rb: "read_bit s = (b, s')" by (cases "read_bit s")
    then have s': "level s' = level s" "reads s' = Suc (reads s)"
      and b: "b = (if level s (reads s) then 1 else 0)"
      by (auto simp add: read_bit_eq)
    have unroll: "read_byte_loop ii acc s = read_byte_loop (ii + 1) (push_bit 1 acc OR b) s'"
      by (subst read_byte_loop.simps) (simp only: True if_True rb Let_def prod.case)
    have IH: "bit (fst (read_byte_loop (ii + 1) (push_bit 1 acc OR b) s')) k \<longleftrightarrow>
       (if k < 8 - (ii + 1) then level s' (reads s' + (7 - (ii + 1) - k))
        else k < 8 \<and> bit (push_bit 1 acc OR b) (k - (8 - (ii + 1))))"
      using True by (intro "1.IH" [OF True rb [symmetric] refl]) simp
    have low: "bit (push_bit 1 acc OR b) 0 = level s (reads s)"
      by (simp add: b bit_0 even_or_iff)
    have high: "bit (push_bit 1 acc OR b) (Suc n) = (Suc n < 8 \<and> bit acc n)" for n
      by (simp add: b bit_or_iff bit_double_Suc bit_1_iff)
    consider "k < 7 - ii" | "k = 7 - ii" | "k > 7 - ii" by linarith
    then show ?thesis
    proof cases
      case 1
      then have "reads s' + (7 - (ii + 1) - k) = reads s + (7 - ii - k)" "k < 8 - ii"
        using s' by simp_all
      with 1 True s' show ?thesis unfolding unroll IH by simp
    next
      case 2
      then have "\<not> k < 8 - (ii + 1)" "k < 8 - ii" "7 - ii - k = 0" "k - (8 - (ii + 1)) = 0" "k < 8"
        using True by simp_all
      then show ?thesis unfolding unroll IH using s' low by simp
    next
      case 3
      define n where "n = k - (8 - ii)"
      from 3 True have "\<not> k < 8 - (ii + 1)" "\<not> k < 8 - ii" "k - (8 - (ii + 1)) = Suc n"
        "k < 8 \<longrightarrow> Suc n < 8"
        by (auto simp add: n_def)
      then show ?thesis unfolding unroll IH using high [of n] n_def by auto
    qed
  next
    case False
    with "1.prems" show ?thesis by (subst read_byte_loop.simps) (auto dest: bit_imp_le_length)
  qed
qed


lemma tx_one_eq: "tx_one s = s\<lparr>trace := trace s @ wave True\<rparr>"
  by (simp add: tx_one_def wave_def sio_set_low_def sio_set_high_def soft_delay_us_def emit_def)

lemma tx_zero_eq: "tx_zero s = s\<lparr>trace := trace s @ wave False\<rparr>"
  by (simp add: tx_zero_def wave_def sio_set_low_def sio_set_high_def soft_delay_us_def emit_def)

lemma tx_bits_eq: "tx_bits bs s = s\<lparr>trace := trace s @ concat (map wave bs)\<rparr>"
  by (induction bs arbitrary: s) (simp_all add: tx_one_eq tx_zero_eq)

lemma sent_bits_wave: "sent_bits (wave b @ cs) = b # sent_bits cs"
  by (simp add: wave_def time_low1_def time_low0_def)

lemma sent_bits_waves: "sent_bits (concat (map wave bs) @ cs) = bs @ sent_bits cs"
  by (induction bs) (simp_all add: sent_bits_wave)

lemma tx_byte_eq:
  "tx_byte v s =
     (if level s (reads s) then 0xFF else 0,
      s\<lparr>trace := trace s
          @ concat (map wave [bit v 7, bit v 6, bit v 5, bit v 4, bit v 3, bit v 2, bit v 1, bit v 0])
          @ [Gpio_dir_out, Busy_wait_us time_rd, Gpio_dir_in, Busy_wait_us time_mrs,
             Gpio_dir_in, Gpio_get (level s (reads s)), Busy_wait_us rd_btime, Gpio_dir_in],
        reads := Suc (reads s)\<rparr>)"
  by (simp add: tx_byte_def tx_byte_loop_msb_first ack_nack_def read_bit_eq tx_bits_eq
      del: tx_bits_Cons)

lemma sent_bits_tx_byte:
  "sent_bits (drop (length (trace s)) (trace (snd (tx_byte v s))))
     = [bit v 7, bit v 6, bit v 5, bit v 4, bit v 3, bit v 2, bit v 1, bit v 0]"
proof -
  let ?tail = "[Gpio_dir_out, Busy_wait_us time_rd, Gpio_dir_in, Busy_wait_us time_mrs,
             Gpio_dir_in, Gpio_get (level s (reads s)), Busy_wait_us rd_btime, Gpio_dir_in]"
  let ?bits = "[bit v 7, bit v 6, bit v 5, bit v 4, bit v 3, bit v 2, bit v 1, bit v 0]"
  have tail: "sent_bits ?tail = []"
    by (simp add: time_rd_def time_low1_def time_low0_def)
  have "drop (length (trace s)) (trace (snd (tx_byte v s))) = concat (map wave ?bits) @ ?tail"
    by (simp add: tx_byte_eq)
  then show ?thesis
    by (simp only: sent_bits_waves tail append_Nil2)
qed

lemma read_byte_bits:
  "bit (fst (read_byte a r)) k \<longleftrightarrow> k < 8 \<and> level r (reads r + (7 - k))"
  using read_byte_loop_bits [of 0 0 r k]
  by (cases "read_byte_loop 0 0 r") (auto simp add: read_byte_def Let_def)

lemma loopback:
  assumes "\<forall>i<8. level r (reads r + i)
             = sent_bits (drop (length (trace s)) (trace (snd (tx_byte v s)))) ! i"
  shows "fst (read_byte a r) = v"
proof (rule bit_word_eqI)
  fix k assume "k < LENGTH(8)"
  then have k: "k < 8" by simp
  then have "7 - k < 8" by simp
  with assms have "level r (reads r + (7 - k))
      = [bit v 7, bit v 6, bit v 5, bit v 4, bit v 3, bit v 2, bit v 1, bit v 0] ! (7 - k)"
    unfolding sent_bits_tx_byte by blast
  also have "\<dots> = bit v k"
    using k by (auto simp add: less_Suc_eq numeral_eq_Suc)
  finally show "bit (fst (read_byte a r)) k = bit v k"
    using k by (simp add: read_byte_bits)
qed

section \<open>The executor and the command channel\<close>

text \<open>
  What \<open>send_cmd\<close> returns and how it moves the state, for each opcode.
\<close>

lemma envelope_cmd_envelope: "envelope_cmd (envelope cmd data) = cmd"
  unfolding envelope_cmd_def envelope_def ff_mask
  by (rule bit_word_eqI) (auto simp add: bit_simps dest: bit_imp_le_length)

lemma envelope_data_envelope: "envelope_data (envelope cmd data) = data"
  unfolding envelope_data_def envelope_def ff_mask
  by (rule bit_word_eqI) (auto simp add: bit_simps)

lemma requests_append: "requests (xs @ ys) = requests xs @ requests ys"
  by (induction xs rule: requests.induct) simp_all

lemma requests_wave [simp]: "requests (wave b) = []"
  by (simp add: wave_def)

lemma requests_waves [simp]: "requests (concat (map wave bs)) = []"
  by (induction bs) (simp_all add: requests_append)

lemma discovery_response_eq:
  "discovery_response s =
     (if level s (reads s) then 0xFF else 0,
      s\<lparr>trace := trace s @ [Gpio_dir_in, Busy_wait_us 200, Gpio_dir_out, Busy_wait_us 150,
                Gpio_dir_in, Busy_wait_us 100, Gpio_dir_out, Busy_wait_us 1,
                Gpio_dir_in, Busy_wait_us 3, Gpio_dir_in, Gpio_get (level s (reads s)),
                Busy_wait_us 150],
        reads := Suc (reads s)\<rparr>)"
  by (simp add: discovery_response_def sio_set_low_def sio_set_high_def soft_delay_us_def
      sio_get_value_def emit_def Let_def)

lemma read_byte_loop_requests:
  "requests (trace (snd (read_byte_loop ii acc s))) = requests (trace s)"
proof (induction ii acc s rule: read_byte_loop.induct)
  case (1 ii acc s)
  show ?case
  proof (cases "ii < 8")
    case True
    obtain b s' where rb: "read_bit s = (b, s')" by (cases "read_bit s")
    then have s': "requests (trace s') = requests (trace s)"
      by (auto simp add: read_bit_eq requests_append)
    have "read_byte_loop ii acc s = read_byte_loop (ii + 1) (push_bit 1 acc OR b) s'"
      by (subst read_byte_loop.simps) (simp only: True if_True rb Let_def prod.case)
    with "1.IH" [OF True rb [symmetric] refl] s' show ?thesis by simp
  next
    case False
    then show ?thesis by (subst read_byte_loop.simps) simp
  qed
qed

lemma read_byte_frame:
  "level (snd (read_byte a s)) = level s"
  "reads (snd (read_byte a s)) = reads s + 8"
  "requests (trace (snd (read_byte a s))) = requests (trace s)"
  using read_byte_loop_frame [of 0 0 s] read_byte_loop_requests [of 0 0 s]
  by (cases "read_byte_loop 0 0 s"; simp add: read_byte_def Let_def tx_one_eq tx_zero_eq requests_append)+

lemma ucast_u8_u32_u8: "(ucast (ucast (r::u8) :: u32) :: u8) = r"
  by (rule bit_word_eqI) (auto simp add: bit_simps)

lemma send_cmd_level [simp]: "level (snd (send_cmd c d s)) = level s"
  by (simp add: send_cmd_def core1_entry_step_def core1_dispatch_def Let_def split_def
      envelope_cmd_envelope envelope_data_envelope tx_byte_eq discovery_response_eq
      rx_byte_def read_byte_frame)

lemma send_cmd_requests [simp]:
  "requests (trace (snd (send_cmd c d s))) = requests (trace s) @ [envelope c d]"
  by (simp add: send_cmd_def core1_entry_step_def core1_dispatch_def Let_def split_def
      envelope_cmd_envelope envelope_data_envelope tx_byte_eq discovery_response_eq
      rx_byte_def read_byte_frame requests_append)

lemma send_cmd_TX_BYTE [simp]:
  "fst (send_cmd TX_BYTE d s) = (if level s (reads s) then 0xFF else 0)"
  "reads (snd (send_cmd TX_BYTE d s)) = Suc (reads s)"
  by (simp_all add: send_cmd_def core1_entry_step_def core1_dispatch_def Let_def split_def
      envelope_cmd_envelope envelope_data_envelope tx_byte_eq ucast_u8_u32_u8)

lemma send_cmd_DISCOVERY [simp]:
  "fst (send_cmd DISCOVERY d s) = (if level s (reads s) then 0xFF else 0)"
  "reads (snd (send_cmd DISCOVERY d s)) = Suc (reads s)"
  by (simp_all add: send_cmd_def core1_entry_step_def core1_dispatch_def Let_def split_def
      envelope_cmd_envelope envelope_data_envelope discovery_response_eq ucast_u8_u32_u8)

lemma send_cmd_RX_BYTE_bits:
  "bit (fst (send_cmd RX_BYTE a s)) k \<longleftrightarrow> k < 8 \<and> level s (reads s + (7 - k))"
  by (simp add: send_cmd_def core1_entry_step_def core1_dispatch_def Let_def split_def
      envelope_cmd_envelope envelope_data_envelope rx_byte_def ucast_u8_u32_u8 read_byte_bits)

lemma send_cmd_RX_BYTE_reads [simp]:
  "reads (snd (send_cmd RX_BYTE a s)) = reads s + 8"
  by (simp add: send_cmd_def core1_entry_step_def core1_dispatch_def Let_def split_def
      envelope_cmd_envelope envelope_data_envelope rx_byte_def read_byte_frame)

lemma send_cmd_RX_BYTE_value:
  "fst (send_cmd RX_BYTE a s) = msb_first_byte (map (\<lambda>i. level s (reads s + i)) [0..<8])"
proof (rule bit_word_eqI)
  fix k assume "k < LENGTH(8)"
  then have k: "k < 8" by simp
  then have "0 + (7 - k) < (8::nat)" by simp
  then have "[0..<8] ! (7 - k) = 7 - k" by (simp only: nth_upt add_0)
  with k have "rev (map (\<lambda>i. level s (reads s + i)) [0..<8]) ! k = level s (reads s + (7 - k))"
    by (simp only: rev_nth length_map length_upt nth_map) simp
  with k show "bit (fst (send_cmd RX_BYTE a s)) k
      = bit (msb_first_byte (map (\<lambda>i. level s (reads s + i)) [0..<8])) k"
    unfolding send_cmd_RX_BYTE_bits msb_first_byte_def
    by (simp add: bit_horner_sum_bit_word_iff del: upt_Suc)
qed

section \<open>The session operations\<close>

text \<open>
  Ranges of the results, the packing of the manufacturer ID, and the loop of \<open>read_block\<close>.
\<close>

lemma upt8: "[0..<8] = [0, 1, 2, 3, 4, 5, 6, 7::nat]"
  by (simp add: upt_rec)

lemmas send_cmd_numeral [simp] =
  send_cmd_TX_BYTE [unfolded TX_BYTE_def] send_cmd_DISCOVERY [unfolded DISCOVERY_def]
  send_cmd_RX_BYTE_reads [unfolded RX_BYTE_def]

lemma uint_u8_range: "- 8 \<le> uint (b::u8) \<and> uint b \<le> 255"
proof -
  have "0 \<le> uint b" by (rule uint_ge_0)
  moreover have "uint b < 256" using uint_lt2p [of b] by simp
  ultimately show ?thesis by linarith
qed

lemma read_eeprom_range:
  "- 8 \<le> fst (read_eeprom dev_addr data_addr s) \<and> fst (read_eeprom dev_addr data_addr s) \<le> 255"
  using uint_u8_range [of "fst (send_cmd RX_BYTE SEND_NACK (snd (send_cmd TX_BYTE
      (OPCODE_EEPROM_ACCESS OR dev_addr OR RW_BIT)
      (stop_con (snd (send_cmd TX_BYTE data_addr
         (snd (send_cmd TX_BYTE (OPCODE_EEPROM_ACCESS OR dev_addr OR 0) s))))))))"]
  by (simp add: read_eeprom_def load_address_def Let_def split_def del: send_cmd_numeral)

lemma verified_read_range:
  "- 8 \<le> fst (verified_read dev_addr data_addr s) \<and> fst (verified_read dev_addr data_addr s) \<le> 255"
  using read_eeprom_range [of dev_addr data_addr s]
    read_eeprom_range [of dev_addr data_addr "snd (read_eeprom dev_addr data_addr s)"]
    read_eeprom_range [of dev_addr data_addr
      "snd (read_eeprom dev_addr data_addr (snd (read_eeprom dev_addr data_addr s)))"]
  by (simp add: verified_read_def Let_def split_def)






lemma read_block_loop_step:
  assumes "i < unat len"
  shows "read_block_loop dev a len i buf (block_state dev a s0 i) =
     (if block_result dev a s0 i < 0
      then (- 3, buf, block_state dev a s0 (Suc i))
      else read_block_loop dev a len (Suc i) (buf[i := word_of_int (block_result dev a s0 i)])
             (block_state dev a s0 (Suc i)))"
  using assms
  by (subst read_block_loop.simps) (simp add: block_result_def Let_def split_def)

lemma read_block_loop_stop:
  assumes "\<not> i < unat len"
  shows "read_block_loop dev a len i buf s = (1, buf, s)"
  using assms by (subst read_block_loop.simps) simp

lemma read_block_loop_code:
  "i \<le> unat len \<Longrightarrow>
   fst (read_block_loop dev a len i buf (block_state dev a s0 i)) =
     (if \<exists>j. i \<le> j \<and> j < unat len \<and> block_result dev a s0 j < 0 then - 3 else 1)"
proof (induction "unat len - i" arbitrary: i buf)
  case 0
  then have "\<not> i < unat len" by simp
  then show ?case by (auto simp add: read_block_loop_stop)
next
  case (Suc n)
  then have lt: "i < unat len" and n: "n = unat len - Suc i" and le: "Suc i \<le> unat len"
    by simp_all
  show ?case
  proof (cases "block_result dev a s0 i < 0")
    case True
    with lt show ?thesis by (auto simp add: read_block_loop_step)
  next
    case False
    have "(\<exists>j. i \<le> j \<and> j < unat len \<and> block_result dev a s0 j < 0)
        \<longleftrightarrow> (\<exists>j. Suc i \<le> j \<and> j < unat len \<and> block_result dev a s0 j < 0)"
      using False by (metis Suc_leI le_neq_implies_less Suc_leD)
    with False lt Suc.hyps(1) [OF n le] show ?thesis
      by (simp add: read_block_loop_step)
  qed
qed

lemma read_block_loop_ok:
  assumes "\<forall>j<unat len. 0 \<le> block_result dev a s0 j"
  shows "i \<le> unat len \<Longrightarrow>
   read_block_loop dev a len i buf (block_state dev a s0 i) =
     (1, fst (snd (read_block_loop dev a len i buf (block_state dev a s0 i))),
      block_state dev a s0 (unat len))
   \<and> length (fst (snd (read_block_loop dev a len i buf (block_state dev a s0 i)))) = length buf
   \<and> (\<forall>j<length buf.
        fst (snd (read_block_loop dev a len i buf (block_state dev a s0 i))) ! j
          = (if i \<le> j \<and> j < unat len then word_of_int (block_result dev a s0 j) else buf ! j))"
proof (induction "unat len - i" arbitrary: i buf)
  case 0
  then have stop: "\<not> i < unat len" and "i = unat len" by simp_all
  then show ?case by (auto simp add: read_block_loop_stop)
next
  case (Suc n)
  then have lt: "i < unat len" and n: "n = unat len - Suc i" and le: "Suc i \<le> unat len"
    by simp_all
  from assms lt have ok: "\<not> block_result dev a s0 i < 0" by (simp add: not_less)
  let ?buf = "buf[i := word_of_int (block_result dev a s0 i)]"
  have step: "read_block_loop dev a len i buf (block_state dev a s0 i)
      = read_block_loop dev a len (Suc i) ?buf (block_state dev a s0 (Suc i))"
    using lt ok by (simp add: read_block_loop_step)
  let ?out = "fst (snd (read_block_loop dev a len (Suc i) ?buf (block_state dev a s0 (Suc i))))"
  from Suc.hyps(1) [OF n le, of ?buf]
  have run: "read_block_loop dev a len (Suc i) ?buf (block_state dev a s0 (Suc i))
        = (1, ?out, block_state dev a s0 (unat len))"
    and len: "length ?out = length buf"
    and cells: "\<forall>j<length buf. ?out ! j
        = (if Suc i \<le> j \<and> j < unat len then word_of_int (block_result dev a s0 j) else ?buf ! j)"
    by simp_all
  have "?out ! j = (if i \<le> j \<and> j < unat len then word_of_int (block_result dev a s0 j) else buf ! j)"
    if j: "j < length buf" for j
  proof (cases "j = i")
    case True
    with j lt cells show ?thesis by simp
  next
    case False
    then have "(Suc i \<le> j) = (i \<le> j)" by auto
    with False j cells show ?thesis by simp
  qed
  with run len show ?case unfolding step by simp
qed


lemma block_result_range:
  "- 8 \<le> block_result dev a s i \<and> block_result dev a s i \<le> 255"
  unfolding block_result_def by (rule verified_read_range)

lemma uint_word_of_int_u8: "0 \<le> k \<Longrightarrow> k \<le> 255 \<Longrightarrow> uint (word_of_int k :: u8) = k"
  by (simp add: uint_word_of_int take_bit_int_eq_self)

lemma read_block_range_error:
  "unat data_addr + unat len > 128 \<Longrightarrow> read_block dev_addr data_addr buffer len s = (- 1, buffer, s)"
  by (simp add: read_block_def)

lemma read_block_absent:
  "unat data_addr + unat len \<le> 128 \<Longrightarrow> fst (send_cmd DISCOVERY 0 s) \<noteq> 0 \<Longrightarrow>
   read_block dev_addr data_addr buffer len s = (- 2, buffer, snd (send_cmd DISCOVERY 0 s))"
  by (simp add: read_block_def Let_def split_def del: send_cmd_numeral)

lemma read_block_present:
  "unat data_addr + unat len \<le> 128 \<Longrightarrow> fst (send_cmd DISCOVERY 0 s) = 0 \<Longrightarrow>
   read_block dev_addr data_addr buffer len s
     = read_block_loop dev_addr data_addr len 0 buffer
         (block_state dev_addr data_addr (snd (send_cmd DISCOVERY 0 s)) 0)"
  by (simp add: read_block_def Let_def split_def del: send_cmd_numeral)

lemma all_less_2: "(\<forall>i<2::nat. P i) \<longleftrightarrow> P 0 \<and> P (Suc 0)"
  by (auto simp add: less_2_cases_iff)

lemma ex_less_2: "(\<exists>i<2::nat. P i) \<longleftrightarrow> P 0 \<or> P (Suc 0)"
  by (auto simp add: less_2_cases_iff)

lemmas eval_session =
  Let_def split_def boot_def line_of_def bits_of_def acked_read_def block_result_def verified_read_def read_eeprom_def
  load_address_def stop_con_def soft_delay_us_def
  send_cmd_RX_BYTE_value [unfolded RX_BYTE_def] msb_first_byte_def upt8

lemma read_block_loop_abort:
  assumes bad: "block_result dev a s0 i0 < 0" and lt: "i0 < unat len"
    and good: "\<forall>j<i0. 0 \<le> block_result dev a s0 j"
  shows "i \<le> i0 \<Longrightarrow>
   read_block_loop dev a len i buf (block_state dev a s0 i) =
     (- 3, fst (snd (read_block_loop dev a len i buf (block_state dev a s0 i))),
      block_state dev a s0 (Suc i0))
   \<and> length (fst (snd (read_block_loop dev a len i buf (block_state dev a s0 i)))) = length buf
   \<and> (\<forall>j<length buf.
        fst (snd (read_block_loop dev a len i buf (block_state dev a s0 i))) ! j
          = (if i \<le> j \<and> j < i0 then word_of_int (block_result dev a s0 j) else buf ! j))"
proof (induction "i0 - i" arbitrary: i buf)
  case 0
  then have i: "i = i0" by simp
  have "read_block_loop dev a len i0 buf (block_state dev a s0 i0)
      = (- 3, buf, block_state dev a s0 (Suc i0))"
    using bad lt by (simp add: read_block_loop_step)
  then show ?case unfolding i by auto
next
  case (Suc n)
  then have less: "i < i0" and n: "n = i0 - Suc i" and le: "Suc i \<le> i0"
    by simp_all
  from less lt have ilen: "i < unat len" by simp
  from good less have ok: "\<not> block_result dev a s0 i < 0" by (simp add: not_less)
  let ?buf = "buf[i := word_of_int (block_result dev a s0 i)]"
  have step: "read_block_loop dev a len i buf (block_state dev a s0 i)
      = read_block_loop dev a len (Suc i) ?buf (block_state dev a s0 (Suc i))"
    using ilen ok by (simp add: read_block_loop_step)
  let ?out = "fst (snd (read_block_loop dev a len (Suc i) ?buf (block_state dev a s0 (Suc i))))"
  from Suc.hyps(1) [OF n le, of ?buf]
  have run: "read_block_loop dev a len (Suc i) ?buf (block_state dev a s0 (Suc i))
        = (- 3, ?out, block_state dev a s0 (Suc i0))"
    and len: "length ?out = length buf"
    and cells: "\<forall>j<length buf. ?out ! j
        = (if Suc i \<le> j \<and> j < i0 then word_of_int (block_result dev a s0 j) else ?buf ! j)"
    by simp_all
  have "?out ! j = (if i \<le> j \<and> j < i0 then word_of_int (block_result dev a s0 j) else buf ! j)"
    if j: "j < length buf" for j
  proof (cases "j = i")
    case True
    with j less cells show ?thesis by simp
  next
    case False
    then have "(Suc i \<le> j) = (i \<le> j)" by auto
    with False j cells show ?thesis by simp
  qed
  with run len show ?case unfolding step by simp
qed

lemma first_failure:
  assumes "\<exists>i<n::nat. P i"
  shows "\<exists>i0<n. P i0 \<and> (\<forall>j<i0. \<not> P j)"
proof -
  from assms obtain i where i: "i < n" "P i" by blast
  then have "\<exists>k. P k" by blast
  then obtain k where k: "P k" "\<forall>m<k. \<not> P m"
    by (auto simp add: exists_least_iff [of P])
  from k(2) i(2) have "\<not> i < k" by blast
  with i(1) have "k < n" by simp
  with k show ?thesis by blast
qed

section \<open>Properties of the firmware\<close>


text \<open>
  C2. \<open>verified_read\<close> reads the address twice. If the two results agree it returns that
  value and reads no more. Otherwise it reads a third time and returns the value that
  two of the three reads share, or \<open>-1\<close> when the three differ from each other.
\<close>

theorem verified_read_majority:
  "let r0 = read_eeprom dev_addr data_addr s;
       r1 = read_eeprom dev_addr data_addr (snd r0);
       r2 = read_eeprom dev_addr data_addr (snd r1);
       res = verified_read dev_addr data_addr s
   in (fst r0 = fst r1 \<longrightarrow> res = (fst r0, snd r1))
    \<and> (fst r0 \<noteq> fst r1 \<and> fst r1 = fst r2 \<longrightarrow> res = (fst r1, snd r2))
    \<and> (fst r0 \<noteq> fst r1 \<and> fst r2 = fst r0 \<longrightarrow> res = (fst r0, snd r2))
    \<and> (fst r0 \<noteq> fst r1 \<and> fst r1 \<noteq> fst r2 \<and> fst r2 \<noteq> fst r0 \<longrightarrow> res = (- 1, snd r2))
    \<and> (fst r0 = 5 \<and> fst r1 = 5 \<longrightarrow> fst res = 5)
    \<and> (fst r0 = 5 \<and> fst r1 = 6 \<and> fst r2 = 6 \<longrightarrow> fst res = 6)
    \<and> (fst r0 = 5 \<and> fst r1 = 6 \<and> fst r2 = 7 \<longrightarrow> fst res = - 1)"
  by (simp add: verified_read_def Let_def split_def)

text \<open>The theorem at work on simulated lines.\<close>

theorem verified_read_majority_witness:
  "fst (read_eeprom 0 3 (boot (acked_read 5 @ acked_read 5))) = 5
   \<and> fst (read_eeprom 0 3 (snd (read_eeprom 0 3 (boot (acked_read 5 @ acked_read 5))))) = 5
   \<and> fst (verified_read 0 3 (boot (acked_read 5 @ acked_read 5))) = 5
   \<and> reads (snd (verified_read 0 3 (boot (acked_read 5 @ acked_read 5)))) = 22
   \<and> fst (verified_read 0 3 (boot (acked_read 5 @ acked_read 6 @ acked_read 6))) = 6
   \<and> reads (snd (verified_read 0 3 (boot (acked_read 5 @ acked_read 6 @ acked_read 6)))) = 33
   \<and> fst (verified_read 0 3 (boot (acked_read 5 @ acked_read 6 @ acked_read 7))) = - 1"
  using verified_read_majority [of 0 3 "boot (acked_read 5 @ acked_read 5)"]
    verified_read_majority [of 0 3 "boot (acked_read 5 @ acked_read 6 @ acked_read 6)"]
    verified_read_majority [of 0 3 "boot (acked_read 5 @ acked_read 6 @ acked_read 7)"]
  by (simp add: eval_session)

text \<open>
  C3. When start address plus length exceeds 128, \<open>read_block\<close> returns \<open>-1\<close> and has sent
  nothing to the executor: the state and the buffer are as they were (start 120 with
  length 16 is such a request). Otherwise, when Discovery is acknowledged and each
  verified read of the block gives a non-negative value, \<open>read_block\<close> returns 1, cell \<open>i\<close>
  of the buffer holds the value of the verified read of address start plus \<open>i\<close>, taken in
  ascending order of \<open>i\<close>, and the cells from \<open>len\<close> on are untouched.
\<close>

theorem read_block_contract:
  "let disc = send_cmd DISCOVERY 0 s;
       res = read_block dev_addr data_addr buffer len s
   in (unat data_addr + unat len > 128 \<longrightarrow> res = (- 1, buffer, s))
    \<and> read_block dev_addr 120 buffer 16 s = (- 1, buffer, s)
    \<and> (unat data_addr + unat len \<le> 128 \<and> fst disc = 0 \<and> unat len \<le> length buffer
        \<and> (\<forall>i<unat len. 0 \<le> block_result dev_addr data_addr (snd disc) i)
       \<longrightarrow> fst res = 1
         \<and> length (fst (snd res)) = length buffer
         \<and> (\<forall>i<unat len. uint (fst (snd res) ! i) = block_result dev_addr data_addr (snd disc) i)
         \<and> drop (unat len) (fst (snd res)) = drop (unat len) buffer
         \<and> snd (snd res) = block_state dev_addr data_addr (snd disc) (unat len))"
proof -
  define disc where "disc = send_cmd DISCOVERY 0 s"
  define res where "res = read_block dev_addr data_addr buffer len s"
  have range: "res = (- 1, buffer, s)" if "unat data_addr + unat len > 128"
    using that by (simp add: res_def read_block_range_error)
  have ex: "read_block dev_addr 120 buffer 16 s = (- 1, buffer, s)"
    by (simp add: read_block_range_error)
  have ok: "fst res = 1
         \<and> length (fst (snd res)) = length buffer
         \<and> (\<forall>i<unat len. uint (fst (snd res) ! i) = block_result dev_addr data_addr (snd disc) i)
         \<and> drop (unat len) (fst (snd res)) = drop (unat len) buffer
         \<and> snd (snd res) = block_state dev_addr data_addr (snd disc) (unat len)"
    if fits: "unat data_addr + unat len \<le> 128" and ack: "fst disc = 0"
      and room: "unat len \<le> length buffer"
      and good: "\<forall>i<unat len. 0 \<le> block_result dev_addr data_addr (snd disc) i"
  proof -
    let ?loop = "read_block_loop dev_addr data_addr len 0 buffer
         (block_state dev_addr data_addr (snd disc) 0)"
    have res: "res = ?loop"
      using fits ack by (simp only: res_def disc_def read_block_present)
    from read_block_loop_ok [OF good, of 0 buffer]
    have run: "?loop = (1, fst (snd ?loop), block_state dev_addr data_addr (snd disc) (unat len))"
      and len: "length (fst (snd ?loop)) = length buffer"
      and cells: "\<forall>j<length buffer. fst (snd ?loop) ! j
          = (if 0 \<le> j \<and> j < unat len
             then word_of_int (block_result dev_addr data_addr (snd disc) j) else buffer ! j)"
      by simp_all
    have vals: "uint (fst (snd ?loop) ! i) = block_result dev_addr data_addr (snd disc) i"
      if i: "i < unat len" for i
    proof -
      from i room have "i < length buffer" by simp
      with cells i have "fst (snd ?loop) ! i
          = word_of_int (block_result dev_addr data_addr (snd disc) i)" by simp
      moreover from good i have "0 \<le> block_result dev_addr data_addr (snd disc) i" by simp
      ultimately show ?thesis
        using block_result_range [of dev_addr data_addr "snd disc" i]
        by (simp add: uint_word_of_int_u8)
    qed
    have rest: "drop (unat len) (fst (snd ?loop)) = drop (unat len) buffer"
      using len cells by (intro nth_equalityI) simp_all
    from run have "fst ?loop = 1" "snd (snd ?loop) = block_state dev_addr data_addr (snd disc) (unat len)"
      by (metis fst_conv, metis snd_conv)
    with len vals rest show ?thesis unfolding res by blast
  qed
  show ?thesis
    unfolding Let_def disc_def [symmetric] res_def [symmetric]
    using range ex ok by blast
qed

text \<open>The theorem at work on simulated lines.\<close>

theorem read_block_contract_witness:
  "unat (4::u8) + unat (2::u8) \<le> 128
   \<and> fst (send_cmd DISCOVERY 0
        (boot (False # acked_read 0x11 @ acked_read 0x11 @ acked_read 0x22 @ acked_read 0x22))) = 0
   \<and> unat (2::u8) \<le> length [0xAA, 0xBB, 0xCC::u8]
   \<and> block_result 0 4 (snd (send_cmd DISCOVERY 0
        (boot (False # acked_read 0x11 @ acked_read 0x11 @ acked_read 0x22 @ acked_read 0x22)))) 0
       = 0x11
   \<and> block_result 0 4 (snd (send_cmd DISCOVERY 0
        (boot (False # acked_read 0x11 @ acked_read 0x11 @ acked_read 0x22 @ acked_read 0x22)))) 1
       = 0x22
   \<and> fst (read_block 0 4 [0xAA, 0xBB, 0xCC] 2
        (boot (False # acked_read 0x11 @ acked_read 0x11 @ acked_read 0x22 @ acked_read 0x22))) = 1
   \<and> fst (snd (read_block 0 4 [0xAA, 0xBB, 0xCC] 2
        (boot (False # acked_read 0x11 @ acked_read 0x11 @ acked_read 0x22 @ acked_read 0x22))))
       = [0x11, 0x22, 0xCC]
   \<and> 128 < unat (120::u8) + unat (16::u8)
   \<and> read_block 0 120 [] 16 (boot []) = (- 1, [], boot [])"
proof -
  define line where
    "line = boot (False # acked_read 0x11 @ acked_read 0x11 @ acked_read 0x22 @ acked_read 0x22)"
  define res where "res = read_block 0 4 [0xAA, 0xBB, 0xCC] 2 line"
  have ack: "fst (send_cmd DISCOVERY 0 line) = 0"
    by (simp add: line_def boot_def line_of_def)
  have r0: "block_result 0 4 (snd (send_cmd DISCOVERY 0 line)) 0 = 0x11"
    by (simp add: line_def eval_session)
  have r1: "block_result 0 4 (snd (send_cmd DISCOVERY 0 line)) (Suc 0) = 0x22"
    by (simp add: line_def eval_session)
  have good: "\<forall>i<unat (2::u8). 0 \<le> block_result 0 4 (snd (send_cmd DISCOVERY 0 line)) i"
    using r0 r1 by (simp add: all_less_2)
  note inst = read_block_contract [where s = line and dev_addr = 0 and data_addr = 4
      and buffer = "[0xAA, 0xBB, 0xCC]" and len = 2, unfolded Let_def, folded res_def]
  from inst ack good have code: "fst res = 1"
    and len: "length (fst (snd res)) = length [0xAA, 0xBB, 0xCC::u8]"
    and cells: "\<forall>i<unat (2::u8). uint (fst (snd res) ! i)
        = block_result 0 4 (snd (send_cmd DISCOVERY 0 line)) i"
    and rest: "drop (unat (2::u8)) (fst (snd res)) = drop (unat (2::u8)) [0xAA, 0xBB, 0xCC]"
    by simp_all
  from len obtain x y z where xyz: "fst (snd res) = [x, y, z]"
    by (auto simp add: length_Suc_conv eval_nat_numeral)
  from cells r0 r1 have "uint x = 0x11" "uint y = 0x22"
    by (simp_all add: all_less_2 xyz)
  then have "x = 0x11" "y = 0x22"
    by (simp_all add: word_uint_eq_iff)
  moreover from rest have "z = 0xCC" by (simp add: xyz)
  ultimately have buf: "fst (snd res) = [0x11, 0x22, 0xCC]" by (simp add: xyz)
  have "read_block 0 120 [] 16 (boot []) = (- 1, [], boot [])"
    using read_block_contract [where s = "boot []" and dev_addr = 0 and data_addr = 120
      and buffer = "[]" and len = 16] by (simp add: Let_def)
  with ack r0 r1 code buf show ?thesis
    unfolding res_def line_def by simp
qed

text \<open>
  C4. Once the range check has passed and Discovery has been acknowledged, a negative
  verified read anywhere in the block makes \<open>read_block\<close> abort with \<open>-3\<close>, whichever
  address it was, whatever the negative value, and however many bytes had been read
  before. It stops at the first failing byte \<open>i0\<close>: the final state is the one that the
  failing verified read left, so no later address is read; the cells below \<open>i0\<close> hold the
  bytes read so far and every other cell of the buffer is as it was.
\<close>

theorem read_block_single_failure_code:
  "(unat data_addr + unat len \<le> 128 \<and> fst (send_cmd DISCOVERY 0 s) = 0
    \<and> (\<exists>i<unat len. block_result dev_addr data_addr (snd (send_cmd DISCOVERY 0 s)) i < 0)
    \<longrightarrow> fst (read_block dev_addr data_addr buffer len s) = - 3
      \<and> (\<exists>i0<unat len.
            block_result dev_addr data_addr (snd (send_cmd DISCOVERY 0 s)) i0 < 0
            \<and> (\<forall>j<i0. 0 \<le> block_result dev_addr data_addr (snd (send_cmd DISCOVERY 0 s)) j)
            \<and> snd (snd (read_block dev_addr data_addr buffer len s))
                = block_state dev_addr data_addr (snd (send_cmd DISCOVERY 0 s)) (Suc i0)))
   \<and> (unat data_addr + unat len \<le> 128 \<and> fst (send_cmd DISCOVERY 0 s) = 0
      \<and> i0 < unat len
      \<and> block_result dev_addr data_addr (snd (send_cmd DISCOVERY 0 s)) i0 < 0
      \<and> (\<forall>j<i0. 0 \<le> block_result dev_addr data_addr (snd (send_cmd DISCOVERY 0 s)) j)
    \<longrightarrow> fst (read_block dev_addr data_addr buffer len s) = - 3
      \<and> snd (snd (read_block dev_addr data_addr buffer len s))
          = block_state dev_addr data_addr (snd (send_cmd DISCOVERY 0 s)) (Suc i0)
      \<and> length (fst (snd (read_block dev_addr data_addr buffer len s))) = length buffer
      \<and> (\<forall>j<length buffer.
            fst (snd (read_block dev_addr data_addr buffer len s)) ! j
              = (if j < i0
                 then word_of_int (block_result dev_addr data_addr (snd (send_cmd DISCOVERY 0 s)) j)
                 else buffer ! j)))"
proof -
  let ?s0 = "snd (send_cmd DISCOVERY 0 s)"
  let ?res = "read_block dev_addr data_addr buffer len s"
  have stop: "fst ?res = - 3
      \<and> snd (snd ?res) = block_state dev_addr data_addr ?s0 (Suc k)
      \<and> length (fst (snd ?res)) = length buffer
      \<and> (\<forall>j<length buffer. fst (snd ?res) ! j
            = (if j < k then word_of_int (block_result dev_addr data_addr ?s0 j) else buffer ! j))"
    if fits: "unat data_addr + unat len \<le> 128" and ack: "fst (send_cmd DISCOVERY 0 s) = 0"
      and k: "k < unat len" and bad: "block_result dev_addr data_addr ?s0 k < 0"
      and good: "\<forall>j<k. 0 \<le> block_result dev_addr data_addr ?s0 j"
    for k
  proof -
    let ?loop = "read_block_loop dev_addr data_addr len 0 buffer
         (block_state dev_addr data_addr ?s0 0)"
    have res: "?res = ?loop"
      using fits ack by (simp only: read_block_present)
    from read_block_loop_abort [OF bad k good, of 0 buffer]
    have run: "?loop = (- 3, fst (snd ?loop), block_state dev_addr data_addr ?s0 (Suc k))"
      and len: "length (fst (snd ?loop)) = length buffer"
      and cells: "\<forall>j<length buffer. fst (snd ?loop) ! j
          = (if 0 \<le> j \<and> j < k
             then word_of_int (block_result dev_addr data_addr ?s0 j) else buffer ! j)"
      by simp_all
    from run have "fst ?loop = - 3"
      "snd (snd ?loop) = block_state dev_addr data_addr ?s0 (Suc k)"
      by (metis fst_conv, metis snd_conv)
    with len cells show ?thesis unfolding res by simp
  qed
  have any: "fst ?res = - 3
      \<and> (\<exists>i0<unat len. block_result dev_addr data_addr ?s0 i0 < 0
            \<and> (\<forall>j<i0. 0 \<le> block_result dev_addr data_addr ?s0 j)
            \<and> snd (snd ?res) = block_state dev_addr data_addr ?s0 (Suc i0))"
    if fits: "unat data_addr + unat len \<le> 128" and ack: "fst (send_cmd DISCOVERY 0 s) = 0"
      and some: "\<exists>i<unat len. block_result dev_addr data_addr ?s0 i < 0"
  proof -
    from first_failure [OF some] obtain k where k: "k < unat len"
      and bad: "block_result dev_addr data_addr ?s0 k < 0"
      and good: "\<forall>j<k. 0 \<le> block_result dev_addr data_addr ?s0 j"
      by (auto simp add: not_less)
    from stop [OF fits ack k bad good] k bad good show ?thesis by blast
  qed
  from stop any show ?thesis by blast
qed

text \<open>The theorem at work on simulated lines.\<close>

theorem read_block_single_failure_code_witness:
  "unat (4::u8) + unat (2::u8) \<le> 128
   \<and> fst (send_cmd DISCOVERY 0
        (boot (False # acked_read 0x11 @ acked_read 0x11 @ [True, True]))) = 0
   \<and> block_result 0 4 (snd (send_cmd DISCOVERY 0
        (boot (False # acked_read 0x11 @ acked_read 0x11 @ [True, True])))) 0 = 0x11
   \<and> block_result 0 4 (snd (send_cmd DISCOVERY 0
        (boot (False # acked_read 0x11 @ acked_read 0x11 @ [True, True])))) 1 = - 7
   \<and> fst (read_block 0 4 [0xAA, 0xBB] 2
        (boot (False # acked_read 0x11 @ acked_read 0x11 @ [True, True]))) = - 3
   \<and> fst (snd (read_block 0 4 [0xAA, 0xBB] 2
        (boot (False # acked_read 0x11 @ acked_read 0x11 @ [True, True])))) = [0x11, 0xBB]
   \<and> snd (snd (read_block 0 4 [0xAA, 0xBB] 2
        (boot (False # acked_read 0x11 @ acked_read 0x11 @ [True, True]))))
       = block_state 0 4 (snd (send_cmd DISCOVERY 0
           (boot (False # acked_read 0x11 @ acked_read 0x11 @ [True, True])))) 2
   \<and> reads (snd (snd (read_block 0 4 [0xAA, 0xBB] 2
        (boot (False # acked_read 0x11 @ acked_read 0x11 @ [True, True]))))) = 25
   \<and> fst (send_cmd DISCOVERY 0
        (boot (False # acked_read 5 @ acked_read 6 @ acked_read 7))) = 0
   \<and> block_result 0 4 (snd (send_cmd DISCOVERY 0
        (boot (False # acked_read 5 @ acked_read 6 @ acked_read 7)))) 0 = - 1
   \<and> fst (read_block 0 4 [0xAA, 0xBB] 2
        (boot (False # acked_read 5 @ acked_read 6 @ acked_read 7))) = - 3
   \<and> fst (snd (read_block 0 4 [0xAA, 0xBB] 2
        (boot (False # acked_read 5 @ acked_read 6 @ acked_read 7)))) = [0xAA, 0xBB]
   \<and> snd (snd (read_block 0 4 [0xAA, 0xBB] 2
        (boot (False # acked_read 5 @ acked_read 6 @ acked_read 7))))
       = block_state 0 4 (snd (send_cmd DISCOVERY 0
           (boot (False # acked_read 5 @ acked_read 6 @ acked_read 7)))) 1
   \<and> reads (snd (snd (read_block 0 4 [0xAA, 0xBB] 2
        (boot (False # acked_read 5 @ acked_read 6 @ acked_read 7))))) = 34"
proof -
  define late where "late = boot (False # acked_read 0x11 @ acked_read 0x11 @ [True, True])"
  define early where "early = boot (False # acked_read 5 @ acked_read 6 @ acked_read 7)"
  define res1 where "res1 = read_block 0 4 [0xAA, 0xBB] 2 late"
  define res0 where "res0 = read_block 0 4 [0xAA, 0xBB] 2 early"
  have ack: "fst (send_cmd DISCOVERY 0 late) = 0" "fst (send_cmd DISCOVERY 0 early) = 0"
    by (simp_all add: late_def early_def boot_def line_of_def)
  have l0: "block_result 0 4 (snd (send_cmd DISCOVERY 0 late)) 0 = 0x11"
    by (simp add: late_def eval_session)
  have l1: "block_result 0 4 (snd (send_cmd DISCOVERY 0 late)) (Suc 0) = - 7"
    by (simp add: late_def eval_session)
  have e0: "block_result 0 4 (snd (send_cmd DISCOVERY 0 early)) 0 = - 1"
    by (simp add: early_def eval_session)
  have lreads: "reads (block_state 0 4 (snd (send_cmd DISCOVERY 0 late)) (Suc (Suc 0))) = 25"
    by (simp add: late_def eval_session)
  have ereads: "reads (block_state 0 4 (snd (send_cmd DISCOVERY 0 early)) (Suc 0)) = 34"
    by (simp add: early_def eval_session)
  have lgood: "\<forall>j<Suc 0. 0 \<le> block_result 0 4 (snd (send_cmd DISCOVERY 0 late)) j"
    using l0 by simp
  note late_inst = read_block_single_failure_code [where s = late and dev_addr = 0
      and data_addr = 4 and buffer = "[0xAA, 0xBB]" and len = 2 and ?i0.0 = "Suc 0",
      THEN conjunct2, folded res1_def]
  from late_inst ack(1) l1 lgood have lcode: "fst res1 = - 3"
    and lstate: "snd (snd res1) = block_state 0 4 (snd (send_cmd DISCOVERY 0 late)) (Suc (Suc 0))"
    and llen: "length (fst (snd res1)) = length [0xAA, 0xBB::u8]"
    and lcells: "\<forall>j<length [0xAA, 0xBB::u8]. fst (snd res1) ! j
        = (if j < Suc 0 then word_of_int (block_result 0 4 (snd (send_cmd DISCOVERY 0 late)) j)
           else [0xAA, 0xBB] ! j)"
    by simp_all
  from llen obtain x y where lxy: "fst (snd res1) = [x, y]"
    by (auto simp add: length_Suc_conv eval_nat_numeral)
  from lcells [rule_format, of 0] lcells [rule_format, of "Suc 0"] l0
  have lbuf: "fst (snd res1) = [0x11, 0xBB]"
    by (simp add: lxy)
  note early_inst = read_block_single_failure_code [where s = early and dev_addr = 0
      and data_addr = 4 and buffer = "[0xAA, 0xBB]" and len = 2 and ?i0.0 = 0,
      THEN conjunct2, folded res0_def]
  from early_inst ack(2) e0 have ecode: "fst res0 = - 3"
    and estate: "snd (snd res0) = block_state 0 4 (snd (send_cmd DISCOVERY 0 early)) (Suc 0)"
    and elen: "length (fst (snd res0)) = length [0xAA, 0xBB::u8]"
    and ecells: "\<forall>j<length [0xAA, 0xBB::u8]. fst (snd res0) ! j
        = (if j < 0 then word_of_int (block_result 0 4 (snd (send_cmd DISCOVERY 0 early)) j)
           else [0xAA, 0xBB] ! j)"
    by simp_all
  from elen obtain x' y' where exy: "fst (snd res0) = [x', y']"
    by (auto simp add: length_Suc_conv eval_nat_numeral)
  from ecells [rule_format, of 0] ecells [rule_format, of "Suc 0"]
  have ebuf: "fst (snd res0) = [0xAA, 0xBB]"
    by (simp add: exy)
  have two: "(2::nat) = Suc (Suc 0)" by simp
  from ack l0 l1 e0 lcode lbuf lstate lreads ecode ebuf estate ereads show ?thesis
    unfolding res1_def res0_def late_def early_def two by simp
qed



text \<open>
  C6. \<open>read_eeprom\<close> returns the received byte, a value from 0 to 255, or a negative code
  that names the point of failure: \<open>-6\<close>, \<open>-7\<close> and \<open>-8\<close> are the three failures of
  \<open>load_address\<close> (\<open>-1\<close>, \<open>-2\<close>, \<open>-3\<close> there) moved down by five, and \<open>-5\<close> is the NACK of the
  second addressing. No other value is returned.
\<close>

theorem read_eeprom_codes:
  "let t1 = send_cmd TX_BYTE (OPCODE_EEPROM_ACCESS OR dev_addr OR 0) s;
       t2 = send_cmd TX_BYTE data_addr (snd t1);
       t3 = send_cmd TX_BYTE (OPCODE_EEPROM_ACCESS OR dev_addr OR RW_BIT) (stop_con (snd t2));
       rx = send_cmd RX_BYTE SEND_NACK (snd t3);
       res = read_eeprom dev_addr data_addr s
   in (data_addr > 128
        \<longrightarrow> load_address dev_addr data_addr s = (- 1, s) \<and> res = (- 6, s))
    \<and> (data_addr \<le> 128 \<and> fst t1 \<noteq> 0
        \<longrightarrow> load_address dev_addr data_addr s = (- 2, snd t1) \<and> res = (- 7, snd t1))
    \<and> (data_addr \<le> 128 \<and> fst t1 = 0 \<and> fst t2 \<noteq> 0
        \<longrightarrow> load_address dev_addr data_addr s = (- 3, snd t2) \<and> res = (- 8, snd t2))
    \<and> (data_addr \<le> 128 \<and> fst t1 = 0 \<and> fst t2 = 0 \<and> fst t3 \<noteq> 0
        \<longrightarrow> load_address dev_addr data_addr s = (1, snd t2) \<and> res = (- 5, snd t3))
    \<and> (data_addr \<le> 128 \<and> fst t1 = 0 \<and> fst t2 = 0 \<and> fst t3 = 0
        \<longrightarrow> load_address dev_addr data_addr s = (1, snd t2)
          \<and> res = (uint (fst rx), stop_con (snd rx))
          \<and> 0 \<le> fst res \<and> fst res \<le> 255)
    \<and> (fst res \<in> {- 8, - 7, - 6, - 5} \<or> (0 \<le> fst res \<and> fst res \<le> 255))"
  using uint_u8_range [of "fst (send_cmd RX_BYTE SEND_NACK (snd (send_cmd TX_BYTE
      (OPCODE_EEPROM_ACCESS OR dev_addr OR RW_BIT)
      (stop_con (snd (send_cmd TX_BYTE data_addr
         (snd (send_cmd TX_BYTE (OPCODE_EEPROM_ACCESS OR dev_addr OR 0) s))))))))"]
  by (simp add: read_eeprom_def load_address_def Let_def split_def not_le
      del: send_cmd_numeral)

text \<open>The theorem at work on simulated lines.\<close>

theorem read_eeprom_codes_witness:
  "(200::u8) > 128 \<and> fst (read_eeprom 0 200 (boot [])) = - 6
   \<and> fst (send_cmd TX_BYTE (OPCODE_EEPROM_ACCESS OR 0 OR 0) (boot [True])) \<noteq> 0
   \<and> fst (read_eeprom 0 5 (boot [True])) = - 7
   \<and> fst (read_eeprom 0 5 (boot [False, True])) = - 8
   \<and> fst (read_eeprom 0 5 (boot [False, False, True])) = - 5
   \<and> fst (read_eeprom 0 5 (boot (acked_read 0x5A))) = 0x5A"
  using read_eeprom_codes [of 0 "boot []" 200]
    read_eeprom_codes [of 0 "boot [True]" 5]
    read_eeprom_codes [of 0 "boot [False, True]" 5]
    read_eeprom_codes [of 0 "boot [False, False, True]" 5]
    read_eeprom_codes [of 0 "boot (acked_read 0x5A)" 5]
  by (simp add: eval_session)

text \<open>
  C7. \<open>tx_byte\<close> sends the eight bits of its argument most significant first, shifting the
  working byte left after each, and returns what the ack/nack read gives. \<open>read_byte\<close> makes
  the first bit it reads the most significant bit of its result. Hence a \<open>read_byte\<close> that is
  fed the bits found on the line after \<open>tx_byte v\<close> returns \<open>v\<close>.
\<close>

theorem tx_byte_read_byte_loopback:
  "tx_byte v s = ack_nack (tx_bits (bits_of v) s)
   \<and> sent_bits (drop (length (trace s)) (trace (snd (tx_byte v s)))) = bits_of v
   \<and> (\<forall>k. bit (fst (read_byte a r)) k \<longleftrightarrow> k < 8 \<and> level r (reads r + (7 - k)))
   \<and> ((\<forall>i<8. level r (reads r + i)
              = sent_bits (drop (length (trace s)) (trace (snd (tx_byte v s)))) ! i)
        \<longrightarrow> fst (read_byte a r) = v)"
proof (intro conjI allI impI)
  show "tx_byte v s = ack_nack (tx_bits (bits_of v) s)"
    by (simp only: tx_byte_def tx_byte_loop_msb_first bits_of_def)
  show "sent_bits (drop (length (trace s)) (trace (snd (tx_byte v s)))) = bits_of v"
    unfolding bits_of_def by (rule sent_bits_tx_byte)
  show "bit (fst (read_byte a r)) k \<longleftrightarrow> k < 8 \<and> level r (reads r + (7 - k))" for k
    by (rule read_byte_bits)
  show "fst (read_byte a r) = v"
    if "\<forall>i<8. level r (reads r + i)
              = sent_bits (drop (length (trace s)) (trace (snd (tx_byte v s)))) ! i"
    using that by (rule loopback)
qed

text \<open>The theorem at work on simulated lines.\<close>

theorem tx_byte_read_byte_loopback_witness:
  "map (\<lambda>i. level (boot (bits_of 0xA5)) (reads (boot (bits_of 0xA5)) + i)) [0..<8]
     = sent_bits (drop (length (trace (boot []))) (trace (snd (tx_byte 0xA5 (boot [])))))
   \<and> sent_bits (drop (length (trace (boot []))) (trace (snd (tx_byte 0xA5 (boot [])))))
     = [True, False, True, False, False, True, False, True]
   \<and> fst (read_byte 1 (boot (bits_of 0xA5))) = 0xA5"
proof -
  note inst = tx_byte_read_byte_loopback [of "0xA5" "boot []" 1 "boot (bits_of 0xA5)"]
  have sent: "sent_bits (drop (length (trace (boot []))) (trace (snd (tx_byte 0xA5 (boot [])))))
      = [True, False, True, False, False, True, False, True]"
    using inst [THEN conjunct2, THEN conjunct1] by (simp add: bits_of_def)
  have line: "map (\<lambda>i. level (boot (bits_of 0xA5)) (reads (boot (bits_of 0xA5)) + i)) [0..<8]
     = [True, False, True, False, False, True, False, True]"
    by (simp add: boot_def line_of_def bits_of_def upt8)
  have fed: "\<forall>i<8. level (boot (bits_of 0xA5)) (reads (boot (bits_of 0xA5)) + i)
           = sent_bits (drop (length (trace (boot []))) (trace (snd (tx_byte 0xA5 (boot []))))) ! i"
    unfolding sent by (simp add: boot_def line_of_def bits_of_def)
  with inst [THEN conjunct2, THEN conjunct2, THEN conjunct2] line sent show ?thesis by simp
qed

text \<open>
  C8. A turn of the executor on an envelope whose opcode is none of \<open>TX_BYTE\<close>,
  \<open>DISCOVERY\<close>, \<open>RX_BYTE\<close> runs no primitive and answers \<open>0xFF\<close>; on each of the three known
  opcodes it runs exactly the matching primitive, between masking and restoring the
  interrupts, and answers with that primitive's result.
\<close>

theorem core1_entry_step_dispatch:
  "(envelope_cmd item \<noteq> TX_BYTE \<and> envelope_cmd item \<noteq> DISCOVERY \<and> envelope_cmd item \<noteq> RX_BYTE
      \<longrightarrow> core1_entry_step item s = reply (0xFF, emit Irq_disable s))
   \<and> (envelope_cmd item = TX_BYTE
      \<longrightarrow> core1_entry_step item s = reply (tx_byte (envelope_data item) (emit Irq_disable s)))
   \<and> (envelope_cmd item = DISCOVERY
      \<longrightarrow> core1_entry_step item s = reply (discovery_response (emit Irq_disable s)))
   \<and> (envelope_cmd item = RX_BYTE
      \<longrightarrow> core1_entry_step item s = reply (rx_byte (envelope_data item) (emit Irq_disable s)))"
  by (simp add: core1_entry_step_def core1_dispatch_def reply_def Let_def split_def)

text \<open>The theorem at work on simulated lines.\<close>

theorem core1_entry_step_dispatch_witness:
  "envelope_cmd 0x7F000012 \<noteq> TX_BYTE \<and> envelope_cmd 0x7F000012 \<noteq> DISCOVERY
   \<and> envelope_cmd 0x7F000012 \<noteq> RX_BYTE
   \<and> fst (core1_entry_step 0x7F000012 (boot [])) = 0xFF
   \<and> reads (snd (core1_entry_step 0x7F000012 (boot []))) = 0
   \<and> trace (snd (core1_entry_step 0x7F000012 (boot [])))
        = [Irq_disable, Irq_restore, Fifo_push_core1 0xFF]
   \<and> envelope_cmd 0x01000055 = TX_BYTE
   \<and> core1_entry_step 0x01000055 (boot []) = reply (tx_byte 0x55 (emit Irq_disable (boot [])))
   \<and> envelope_cmd 0x02000000 = DISCOVERY
   \<and> core1_entry_step 0x02000000 (boot []) = reply (discovery_response (emit Irq_disable (boot [])))
   \<and> envelope_cmd 0x03000001 = RX_BYTE
   \<and> core1_entry_step 0x03000001 (boot []) = reply (rx_byte 1 (emit Irq_disable (boot [])))"
  using core1_entry_step_dispatch [of "0x7F000012" "boot []"]
    core1_entry_step_dispatch [of "0x01000055" "boot []"]
    core1_entry_step_dispatch [of "0x02000000" "boot []"]
    core1_entry_step_dispatch [of "0x03000001" "boot []"]
  by (simp add: envelope_cmd_def envelope_data_def reply_def boot_def emit_def)

text \<open>
  C9. The envelope crosses the command channel without loss: for every opcode byte and
  payload byte, what \<open>core1_entry\<close> decodes from the word that \<open>send_cmd\<close> packs is the
  original pair.
\<close>

theorem envelope_round_trip:
  "envelope_cmd (envelope cmd data) = cmd \<and> envelope_data (envelope cmd data) = data"
  by (simp add: envelope_cmd_envelope envelope_data_envelope)

text \<open>
  C10. The range check of \<open>read_block\<close> adds start address and length as integers, without
  wrapping at 256: the result is \<open>-1\<close> exactly when the sum exceeds 128, so 255 plus 255 is
  turned away. With length 0 and a start address of at most 128 the check passes, no
  byte is read, the buffer is unchanged and the result is 1 when Discovery is
  acknowledged.
\<close>

theorem read_block_range_check_exact:
  "(fst (read_block dev_addr data_addr buffer len s) = - 1 \<longleftrightarrow> unat data_addr + unat len > 128)
   \<and> read_block dev_addr 255 buffer 255 s = (- 1, buffer, s)
   \<and> (data_addr \<le> 128 \<longrightarrow>
        read_block dev_addr data_addr buffer 0 s
          = (if fst (send_cmd DISCOVERY 0 s) = 0 then 1 else - 2, buffer,
             snd (send_cmd DISCOVERY 0 s)))"
proof (intro conjI impI)
  show "fst (read_block dev_addr data_addr buffer len s) = - 1 \<longleftrightarrow> unat data_addr + unat len > 128"
  proof (cases "unat data_addr + unat len > 128")
    case True
    then show ?thesis by (simp add: read_block_range_error)
  next
    case False
    then have fits: "unat data_addr + unat len \<le> 128" by simp
    show ?thesis
    proof (cases "fst (send_cmd DISCOVERY 0 s) = 0")
      case True
      show ?thesis
        using False
          read_block_loop_code [of 0 len dev_addr data_addr buffer "snd (send_cmd DISCOVERY 0 s)"]
        by (simp only: read_block_present [OF fits True]) (simp split: if_splits)
    next
      case nack: False
      show ?thesis using False by (simp only: read_block_absent [OF fits nack]) simp
    qed
  qed
  show "read_block dev_addr 255 buffer 255 s = (- 1, buffer, s)"
    by (simp add: read_block_range_error)
  show "read_block dev_addr data_addr buffer 0 s
          = (if fst (send_cmd DISCOVERY 0 s) = 0 then 1 else - 2, buffer,
             snd (send_cmd DISCOVERY 0 s))"
    if "data_addr \<le> 128"
  proof -
    from that have "unat data_addr \<le> 128" by (simp add: word_le_nat_alt)
    then show ?thesis
      by (simp add: read_block_def Let_def split_def read_block_loop_stop del: send_cmd_numeral)
  qed
qed

text \<open>The theorem at work on simulated lines.\<close>

theorem read_block_range_check_exact_witness:
  "(128::u8) \<le> 128
   \<and> read_block 0 128 [7] 0 (boot [False]) = (1, [7], snd (send_cmd DISCOVERY 0 (boot [False])))
   \<and> requests (trace (snd (snd (read_block 0 128 [7] 0 (boot [False]))))) = [envelope DISCOVERY 0]
   \<and> fst (read_block 0 128 [7] 1 (boot [False])) = - 1"
  using read_block_range_check_exact [where s = "boot [False]" and dev_addr = 0
      and data_addr = 128 and buffer = "[7]" and len = 0]
    read_block_range_check_exact [where s = "boot [False]" and dev_addr = 0
      and data_addr = 128 and buffer = "[7]" and len = 1]
  by (simp add: boot_def line_of_def)

end
